theory Spec2Isabelle
  imports Complex_Main "HOL-Library.AList"
begin

section \<open>Errors and numbers\<close>

text \<open>
  The module \<^verbatim>\<open>nlogo_graphs.py\<close> builds random graphs with the networkx library,
  hands them to NetLogo as plain node and edge lists, and computes opinion metrics and
  influence paths on graphs it rebuilds from NetLogo's agents and links.

  Every Python exception that the modelled code can raise is a value of \<open>error\<close>; a
  function that can raise returns \<open>error + 'a\<close> with \<open>Inl\<close> for the exception.
  \<open>NotFinite\<close> stands for the values \<^verbatim>\<open>nan\<close> and \<^verbatim>\<open>inf\<close> that numpy returns (with a
  warning, not an exception) for a division by zero. Python floats are modelled as
  \<open>real\<close>: comparisons are exact, sums, products and quotients are the exact ones.
  Node identifiers are natural numbers.
\<close>

datatype error = IndexError | KeyError | ValueError | ZeroDivisionError
  | NetworkXNoPath | NodeNotFound | NetworkXError | NotFinite

type_synonym node = nat
type_synonym addr = nat

section \<open>The networkx graph classes\<close>

text \<open>
  A networkx graph keeps a dictionary \<^verbatim>\<open>_adj\<close> from each node to the dictionary of its
  neighbours; the value stored for a neighbour is the data dictionary of the edge. For an
  undirected \<^verbatim>\<open>Graph\<close> the entries \<^verbatim>\<open>_adj[u][v]\<close> and \<^verbatim>\<open>_adj[v][u]\<close> hold the same dictionary
  object, so a write through one is seen through the other. The model keeps that sharing:
  \<open>adj\<close> maps a node to its neighbours in insertion order, each with the address of the
  edge's data dictionary, and \<open>edge_weight\<close> is the store, giving for an address the
  \<^verbatim>\<open>'weight'\<close> entry of the dictionary there (the only key this module ever writes).
  Python dictionaries keep insertion order, which is the order of \<^verbatim>\<open>G.nodes\<close> and
  \<^verbatim>\<open>G.edges\<close>, so both levels are association lists. \<open>node_attr\<close> is \<^verbatim>\<open>_node\<close>, the
  attribute dictionary of each node; its keys are those of \<open>adj\<close>. A \<^verbatim>\<open>DiGraph\<close> is the
  same record with \<open>directed\<close> set: \<open>adj\<close> is then its successor dictionary (the
  predecessor dictionary is never read by this module and is left out).
\<close>

record nx_graph =
  directed :: bool
  adj :: "(node \<times> (node \<times> addr) list) list"
  node_attr :: "node \<Rightarrow> (string \<rightharpoonup> real)"
  edge_weight :: "addr \<Rightarrow> real option"
  fresh :: addr

definition Graph :: nx_graph where
  "Graph = \<lparr>directed = False, adj = [], node_attr = (\<lambda>_. Map.empty),
     edge_weight = (\<lambda>_. None), fresh = 0\<rparr>"

definition DiGraph :: nx_graph where
  "DiGraph = \<lparr>directed = True, adj = [], node_attr = (\<lambda>_. Map.empty),
     edge_weight = (\<lambda>_. None), fresh = 0\<rparr>"

text \<open>\<^verbatim>\<open>list(G.nodes)\<close>, \<^verbatim>\<open>G._adj[u]\<close> and the neighbours of a node.\<close>

definition nodes_of :: "nx_graph \<Rightarrow> node list" where
  "nodes_of G = map fst (adj G)"

definition adj_of :: "nx_graph \<Rightarrow> node \<Rightarrow> (node \<times> addr) list" where
  "adj_of G u = (case map_of (adj G) u of None \<Rightarrow> [] | Some nb \<Rightarrow> nb)"

definition neighbors :: "nx_graph \<Rightarrow> node \<Rightarrow> node list" where
  "neighbors G u = map fst (adj_of G u)"

text \<open>\<^verbatim>\<open>G.add_node(n)\<close> and \<^verbatim>\<open>G.add_nodes_from(ns)\<close>: a node already present is kept as it is.\<close>

definition add_node :: "node \<Rightarrow> nx_graph \<Rightarrow> nx_graph" where
  "add_node n G =
     (if n \<in> set (nodes_of G) then G
      else G\<lparr>adj := adj G @ [(n, [])], node_attr := (node_attr G)(n := Map.empty)\<rparr>)"

definition add_nodes_from :: "node list \<Rightarrow> nx_graph \<Rightarrow> nx_graph" where
  "add_nodes_from ns G = fold add_node ns G"

text \<open>
  \<^verbatim>\<open>G.add_edge(u, v)\<close>: both endpoints are added when absent; the edge's data dictionary
  is the one already stored at \<^verbatim>\<open>_adj[u][v]\<close>, or a new empty one; it is stored at
  \<^verbatim>\<open>_adj[u][v]\<close> and, for an undirected graph, at \<^verbatim>\<open>_adj[v][u]\<close> as well.
\<close>

definition set_adj :: "node \<Rightarrow> node \<Rightarrow> addr \<Rightarrow> nx_graph \<Rightarrow> nx_graph" where
  "set_adj u v a G = G\<lparr>adj := AList.map_entry u (AList.update v a) (adj G)\<rparr>"

definition edge_data :: "node \<Rightarrow> node \<Rightarrow> nx_graph \<Rightarrow> addr \<times> nx_graph" where
  "edge_data u v G =
     (case map_of (adj_of G u) v of
        Some a \<Rightarrow> (a, G)
      | None \<Rightarrow> (fresh G, G\<lparr>edge_weight := (edge_weight G)(fresh G := None),
                               fresh := Suc (fresh G)\<rparr>))"

definition add_edge :: "node \<Rightarrow> node \<Rightarrow> nx_graph \<Rightarrow> nx_graph" where
  "add_edge u v G =
     (let G1 = add_node v (add_node u G);
          (a, G2) = edge_data u v G1;
          G3 = set_adj u v a G2
      in if directed G then G3 else set_adj v u a G3)"

text \<open>
  \<^verbatim>\<open>G.edges\<close>. For an undirected graph the view walks the nodes in order and reports
  \<open>(n, v)\<close> for each neighbour \<open>v\<close> of \<open>n\<close> that is not a node walked before \<open>n\<close>, so each
  edge is reported once, from its earlier endpoint, and a self-loop once. For a directed
  graph it reports every successor entry.
\<close>

fun edges_undirected ::
  "(node \<times> (node \<times> addr) list) list \<Rightarrow> node list \<Rightarrow> (node \<times> node) list" where
  "edges_undirected [] seen = []"
| "edges_undirected ((n, nb) # rest) seen =
     [(n, v). v \<leftarrow> map fst nb, v \<notin> set seen] @ edges_undirected rest (n # seen)"

definition edges_directed :: "(node \<times> (node \<times> addr) list) list \<Rightarrow> (node \<times> node) list" where
  "edges_directed al = concat (map (\<lambda>(n, nb). map (\<lambda>v. (n, v)) (map fst nb)) al)"

definition edges_of :: "nx_graph \<Rightarrow> (node \<times> node) list" where
  "edges_of G = (if directed G then edges_directed (adj G) else edges_undirected (adj G) [])"

text \<open>
  \<^verbatim>\<open>G.remove_nodes_from(ns)\<close> on an undirected graph: for each node present, its entry is
  deleted from the neighbour dictionary of each of its neighbours, then its own
  dictionaries are deleted; a node not present is passed over.
\<close>

definition remove_node :: "node \<Rightarrow> nx_graph \<Rightarrow> nx_graph" where
  "remove_node n G =
     (if n \<notin> set (nodes_of G) then G
      else G\<lparr>adj := AList.delete n
                 (fold (\<lambda>u. AList.map_entry u (AList.delete n)) (neighbors G n) (adj G)),
             node_attr := (node_attr G)(n := Map.empty)\<rparr>)"

definition remove_nodes_from :: "node list \<Rightarrow> nx_graph \<Rightarrow> nx_graph" where
  "remove_nodes_from ns G = fold remove_node ns G"


section \<open>Graphs for NetLogo\<close>

text \<open>
  \<^verbatim>\<open>bidirected_graph(G)\<close> starts from an empty \<^verbatim>\<open>DiGraph\<close> and adds, for every edge that
  \<^verbatim>\<open>G.edges\<close> reports, the edge and its reverse. \<^verbatim>\<open>nlogo_safe_nodes_edges(G)\<close> returns
  the dictionary with the keys \<^verbatim>\<open>'nodes'\<close> and \<^verbatim>\<open>'edges'\<close>.
\<close>

definition bidirected_graph :: "nx_graph \<Rightarrow> nx_graph" where
  "bidirected_graph G =
     fold (\<lambda>edge bidirected_G.
             add_edge (snd edge) (fst edge) (add_edge (fst edge) (snd edge) bidirected_G))
       (edges_of G) DiGraph"

record nlogo =
  nodes :: "node list"
  edges :: "(node \<times> node) list"

definition nlogo_safe_nodes_edges :: "nx_graph \<Rightarrow> nlogo" where
  "nlogo_safe_nodes_edges G =
     \<lparr>nodes = nodes_of G, edges = map (\<lambda>e. (fst e, snd e)) (edges_of G)\<rparr>"

text \<open>
  The Erdos-Renyi, Watts-Strogatz and Barabasi-Albert entry points call a generator of
  networkx and convert its result. The generator is a parameter of the model: it stands
  for \<^verbatim>\<open>nx.erdos_renyi_graph\<close>, \<^verbatim>\<open>nx.watts_strogatz_graph\<close> or \<^verbatim>\<open>nx.barabasi_albert_graph\<close>
  with the random choices it made.
\<close>

definition ER_graph_bidirected :: "('n \<Rightarrow> 'p \<Rightarrow> nx_graph) \<Rightarrow> 'n \<Rightarrow> 'p \<Rightarrow> nlogo" where
  "ER_graph_bidirected erdos_renyi_graph n p =
     (let G = erdos_renyi_graph n p in nlogo_safe_nodes_edges (bidirected_graph G))"

definition ER_graph :: "('n \<Rightarrow> 'p \<Rightarrow> nx_graph) \<Rightarrow> 'n \<Rightarrow> 'p \<Rightarrow> nlogo" where
  "ER_graph erdos_renyi_graph n p =
     (let G = erdos_renyi_graph n p in nlogo_safe_nodes_edges G)"

definition WS_graph_bidirected ::
  "('n \<Rightarrow> 'k \<Rightarrow> 'p \<Rightarrow> nx_graph) \<Rightarrow> 'n \<Rightarrow> 'k \<Rightarrow> 'p \<Rightarrow> nlogo" where
  "WS_graph_bidirected watts_strogatz_graph n k p =
     (let G = watts_strogatz_graph n k p in nlogo_safe_nodes_edges (bidirected_graph G))"

definition WS_graph :: "('n \<Rightarrow> 'k \<Rightarrow> 'p \<Rightarrow> nx_graph) \<Rightarrow> 'n \<Rightarrow> 'k \<Rightarrow> 'p \<Rightarrow> nlogo" where
  "WS_graph watts_strogatz_graph n k p =
     (let G = watts_strogatz_graph n k p in nlogo_safe_nodes_edges G)"

definition BA_graph_bidirected :: "('n \<Rightarrow> 'm \<Rightarrow> nx_graph) \<Rightarrow> 'n \<Rightarrow> 'm \<Rightarrow> nlogo" where
  "BA_graph_bidirected barabasi_albert_graph n m =
     (let G = barabasi_albert_graph n m in nlogo_safe_nodes_edges (bidirected_graph G))"

definition BA_graph :: "('n \<Rightarrow> 'm \<Rightarrow> nx_graph) \<Rightarrow> 'n \<Rightarrow> 'm \<Rightarrow> nlogo" where
  "BA_graph barabasi_albert_graph n m =
     (let G = barabasi_albert_graph n m in nlogo_safe_nodes_edges G)"

section \<open>Sampling a graph from a probability matrix\<close>

text \<open>
  A two-dimensional numpy array: its shape and its entries. The random source is the
  sequence \<open>rnd\<close> of the values that the successive calls of \<^verbatim>\<open>random()\<close> return; the
  sampling loops carry the graph built so far and the number of draws made.
\<close>

record ndarray =
  shape0 :: nat
  shape1 :: nat
  entry :: "nat \<Rightarrow> nat \<Rightarrow> real"

type_synonym sampling = "nx_graph \<times> nat"

text \<open>
  The loops of \<^verbatim>\<open>MAG_graph\<close> and \<^verbatim>\<open>MAG_graph_bidirected\<close>: both indices range over
  \<^verbatim>\<open>len(p_edge)\<close>, every pair \<open>(i, j)\<close> of the cross product takes one draw, and the edge is
  added when the draw is at most \<^verbatim>\<open>p_edge[(i,j)]\<close>. Reading a column that the array does not
  have raises IndexError.
\<close>

fun MAG_row :: "ndarray \<Rightarrow> (nat \<Rightarrow> real) \<Rightarrow> nat \<Rightarrow> nat list \<Rightarrow> sampling \<Rightarrow> error + sampling" where
  "MAG_row p_edge rnd i [] s = Inr s"
| "MAG_row p_edge rnd i (j # js) (G, c) =
     (let rand = rnd c in
      if shape0 p_edge \<le> i \<or> shape1 p_edge \<le> j then Inl IndexError
      else if rand \<le> entry p_edge i j then MAG_row p_edge rnd i js (add_edge i j G, Suc c)
      else MAG_row p_edge rnd i js (G, Suc c))"

fun MAG_rows :: "ndarray \<Rightarrow> (nat \<Rightarrow> real) \<Rightarrow> nat list \<Rightarrow> sampling \<Rightarrow> error + sampling" where
  "MAG_rows p_edge rnd [] s = Inr s"
| "MAG_rows p_edge rnd (i # is) s =
     (case MAG_row p_edge rnd i [0..<shape0 p_edge] s of
        Inl e \<Rightarrow> Inl e
      | Inr s' \<Rightarrow> MAG_rows p_edge rnd is s')"

text \<open>
  The graph before conversion: \<^verbatim>\<open>len(p_edge[0])\<close> nodes are added first (IndexError when
  the array has no row), then the loops run.
\<close>

definition MAG_sample :: "ndarray \<Rightarrow> (nat \<Rightarrow> real) \<Rightarrow> error + sampling" where
  "MAG_sample p_edge rnd =
     (if shape0 p_edge = 0 then Inl IndexError
      else MAG_rows p_edge rnd [0..<shape0 p_edge]
             (add_nodes_from [0..<shape1 p_edge] Graph, 0))"

text \<open>
  \<^verbatim>\<open>mag.attr_mag\<close> is not part of this module: it is a parameter, returning the matrix
  of edge probabilities and the attribute table \<open>L\<close>, which the result carries under the
  key \<^verbatim>\<open>'L'\<close>.
\<close>

definition MAG_graph ::
  "('n \<Rightarrow> 'a \<Rightarrow> 's \<Rightarrow> 'r \<Rightarrow> ndarray \<times> 'l) \<Rightarrow> (nat \<Rightarrow> real) \<Rightarrow> 'n \<Rightarrow> 'a \<Rightarrow> 's \<Rightarrow> 'r
     \<Rightarrow> error + (nlogo \<times> 'l)" where
  "MAG_graph attr_mag rnd n attrs style resolution =
     (let (p_edge, L) = attr_mag n attrs style resolution in
      case MAG_sample p_edge rnd of
        Inl e \<Rightarrow> Inl e
      | Inr (G, c) \<Rightarrow> Inr (nlogo_safe_nodes_edges G, L))"

definition MAG_graph_bidirected ::
  "('n \<Rightarrow> 'a \<Rightarrow> 's \<Rightarrow> 'r \<Rightarrow> ndarray \<times> 'l) \<Rightarrow> (nat \<Rightarrow> real) \<Rightarrow> 'n \<Rightarrow> 'a \<Rightarrow> 's \<Rightarrow> 'r
     \<Rightarrow> error + (nlogo \<times> 'l)" where
  "MAG_graph_bidirected attr_mag rnd n attrs style resolution =
     (let (p_edge, L) = attr_mag n attrs style resolution in
      case MAG_sample p_edge rnd of
        Inl e \<Rightarrow> Inl e
      | Inr (G, c) \<Rightarrow> Inr (nlogo_safe_nodes_edges (bidirected_graph G), L))"

text \<open>
  The loops of \<^verbatim>\<open>kronecker_graph\<close> and \<^verbatim>\<open>kronecker_graph_bidirected\<close>: a pair with
  \<open>i = j\<close> is skipped before any draw; every other pair takes one draw, and the edge is added
  when the draw is below the entry.
\<close>

fun kronecker_row :: "ndarray \<Rightarrow> (nat \<Rightarrow> real) \<Rightarrow> nat \<Rightarrow> nat list \<Rightarrow> sampling \<Rightarrow> sampling" where
  "kronecker_row G_array rnd i [] s = s"
| "kronecker_row G_array rnd i (j # js) (G, c) =
     (if i = j then kronecker_row G_array rnd i js (G, c)
      else let p = entry G_array i j in
        if rnd c < p then kronecker_row G_array rnd i js (add_edge i j G, Suc c)
        else kronecker_row G_array rnd i js (G, Suc c))"

fun kronecker_rows :: "ndarray \<Rightarrow> (nat \<Rightarrow> real) \<Rightarrow> nat list \<Rightarrow> sampling \<Rightarrow> sampling" where
  "kronecker_rows G_array rnd [] s = s"
| "kronecker_rows G_array rnd (i # is) s =
     kronecker_rows G_array rnd is (kronecker_row G_array rnd i [0..<shape1 G_array] s)"

definition kronecker_sample :: "ndarray \<Rightarrow> (nat \<Rightarrow> real) \<Rightarrow> sampling" where
  "kronecker_sample G_array rnd =
     kronecker_rows G_array rnd [0..<shape0 G_array]
       (add_nodes_from [0..<shape0 G_array] Graph, 0)"


section \<open>Connected components\<close>

text \<open>
  \<^verbatim>\<open>nx.connected_components(G)\<close> walks the nodes in order and, from each node not yet in
  a component, runs a breadth-first search. The search keeps the set \<open>seen\<close> and the set
  \<open>nextlevel\<close>; each round visits the nodes of the level that are not seen yet, marks them
  and collects their neighbours for the next level, until a level is empty. Python sets
  are lists here; \<open>seen\<close> never holds a node twice.
\<close>

fun bfs_level :: "nx_graph \<Rightarrow> node list \<Rightarrow> node list \<times> node list \<Rightarrow> node list \<times> node list" where
  "bfs_level G [] s = s"
| "bfs_level G (v # thislevel) (seen, nextlevel) =
     (if v \<in> set seen then bfs_level G thislevel (seen, nextlevel)
      else bfs_level G thislevel (v # seen, nextlevel @ neighbors G v))"

definition all_neighbors :: "nx_graph \<Rightarrow> node set" where
  "all_neighbors G = (\<Union>u \<in> set (nodes_of G). set (neighbors G u))"

lemma map_fst_map_entry: "map fst (AList.map_entry k f xs) = map fst xs"
  by (induction xs) auto

lemma adj_of_notin: "u \<notin> set (nodes_of G) \<Longrightarrow> adj_of G u = []"
  by (simp add: adj_of_def nodes_of_def map_of_eq_None_iff [THEN iffD2])

lemma neighbors_all_neighbors: "set (neighbors G v) \<subseteq> all_neighbors G"
proof (cases "v \<in> set (nodes_of G)")
  case True
  then show ?thesis by (auto simp: all_neighbors_def)
next
  case False
  then show ?thesis by (simp add: neighbors_def adj_of_notin)
qed

lemma finite_all_neighbors: "finite (all_neighbors G)"
  by (simp add: all_neighbors_def)

lemma bfs_level_seen_mono: "set seen \<subseteq> set (fst (bfs_level G vs (seen, nl)))"
proof (induction vs arbitrary: seen nl)
  case Nil
  then show ?case by simp
next
  case (Cons v vs)
  show ?case
  proof (cases "v \<in> set seen")
    case True
    with Cons.IH [of seen nl] show ?thesis by auto
  next
    case False
    with Cons.IH [of "v # seen" "nl @ neighbors G v"] show ?thesis by auto
  qed
qed

lemma bfs_level_seen_upper: "set (fst (bfs_level G vs (seen, nl))) \<subseteq> set seen \<union> set vs"
proof (induction vs arbitrary: seen nl)
  case Nil
  then show ?case by simp
next
  case (Cons v vs)
  show ?case
  proof (cases "v \<in> set seen")
    case True
    with Cons.IH [of seen nl] show ?thesis by auto
  next
    case False
    with Cons.IH [of "v # seen" "nl @ neighbors G v"] show ?thesis by auto
  qed
qed

lemma bfs_level_next: "set (snd (bfs_level G vs (seen, nl))) \<subseteq> set nl \<union> all_neighbors G"
proof (induction vs arbitrary: seen nl)
  case Nil
  then show ?case by simp
next
  case (Cons v vs)
  show ?case
  proof (cases "v \<in> set seen")
    case True
    with Cons.IH [of seen nl] show ?thesis by auto
  next
    case False
    with Cons.IH [of "v # seen" "nl @ neighbors G v"] neighbors_all_neighbors [of G v]
    show ?thesis by auto
  qed
qed

lemma bfs_level_same: "set vs \<subseteq> set seen \<Longrightarrow> bfs_level G vs (seen, nl) = (seen, nl)"
  by (induction vs) auto

lemma bfs_level_grow:
  "\<not> set vs \<subseteq> set seen \<Longrightarrow> \<exists>v \<in> set vs. v \<notin> set seen \<and> v \<in> set (fst (bfs_level G vs (seen, nl)))"
proof (induction vs arbitrary: seen nl)
  case Nil
  then show ?case by simp
next
  case (Cons v vs)
  show ?case
  proof (cases "v \<in> set seen")
    case True
    with Cons.prems have "\<not> set vs \<subseteq> set seen" by auto
    from Cons.IH [OF this, of nl] True show ?thesis by auto
  next
    case False
    have "v \<in> set (fst (bfs_level G vs (v # seen, nl @ neighbors G v)))"
      using bfs_level_seen_mono [of "v # seen" G vs "nl @ neighbors G v"] by auto
    with False show ?thesis by auto
  qed
qed

definition bfs_order :: "((nx_graph \<times> node list \<times> node list) \<times> (nx_graph \<times> node list \<times> node list)) set" where
  "bfs_order = measures [\<lambda>(G, seen, nl). card ((all_neighbors G \<union> set nl) - set seen),
                          \<lambda>(G, seen, nl). length nl]"

lemma bfs_level_decreases:
  assumes ne: "nextlevel \<noteq> []"
    and r: "bfs_level G nextlevel (seen, []) = (seen', nextlevel')"
  shows "((G, seen', nextlevel'), (G, seen, nextlevel)) \<in> bfs_order"
proof (cases "set nextlevel \<subseteq> set seen")
  case True
  then have "bfs_level G nextlevel (seen, []) = (seen, [])" by (simp add: bfs_level_same)
  with r have eq: "seen' = seen" "nextlevel' = []" by auto
  from True have "(all_neighbors G \<union> set nextlevel) - set seen = all_neighbors G - set seen"
    by auto
  with eq ne show ?thesis by (simp add: bfs_order_def)
next
  case False
  from bfs_level_grow [OF False, of G "[]"] obtain v where
    v: "v \<in> set nextlevel" "v \<notin> set seen" "v \<in> set seen'"
    using r by auto
  have mono: "set seen \<subseteq> set seen'"
    using bfs_level_seen_mono [of seen G nextlevel "[]"] r by simp
  have nx: "set nextlevel' \<subseteq> all_neighbors G"
    using bfs_level_next [of G nextlevel seen "[]"] r by simp
  have "(all_neighbors G \<union> set nextlevel') - set seen'
          \<subset> (all_neighbors G \<union> set nextlevel) - set seen"
    using v mono nx by auto
  moreover have "finite ((all_neighbors G \<union> set nextlevel) - set seen)"
    by (simp add: finite_all_neighbors)
  ultimately have "card ((all_neighbors G \<union> set nextlevel') - set seen')
                     < card ((all_neighbors G \<union> set nextlevel) - set seen)"
    by (rule psubset_card_mono [rotated])
  then show ?thesis by (simp add: bfs_order_def)
qed

function plain_bfs :: "nx_graph \<Rightarrow> node list \<Rightarrow> node list \<Rightarrow> node list" where
  "plain_bfs G seen nextlevel =
     (if nextlevel = [] then seen
      else case bfs_level G nextlevel (seen, []) of
             (seen', nextlevel') \<Rightarrow> plain_bfs G seen' nextlevel')"
  by pat_completeness auto
termination
  apply (relation bfs_order)
   apply (simp add: bfs_order_def)
  apply (rule bfs_level_decreases)
   apply simp_all
  done

fun connected_components_from :: "nx_graph \<Rightarrow> node list \<Rightarrow> node list \<Rightarrow> node list list" where
  "connected_components_from G [] seen = []"
| "connected_components_from G (v # vs) seen =
     (if v \<in> set seen then connected_components_from G vs seen
      else let c = plain_bfs G [] [v] in c # connected_components_from G vs (c @ seen))"

definition connected_components :: "nx_graph \<Rightarrow> node list list" where
  "connected_components G = connected_components_from G (nodes_of G) []"

text \<open>
  \<^verbatim>\<open>max(components, key=len)\<close>: ValueError on no component at all; otherwise the first
  component of the greatest size, since a later one replaces the best so far only when it
  is strictly larger.
\<close>

definition max_by_len :: "'a list list \<Rightarrow> error + 'a list" where
  "max_by_len cs =
     (case cs of
        [] \<Rightarrow> Inl ValueError
      | c # rest \<Rightarrow> Inr (fold (\<lambda>x best. if length best < length x then x else best) rest c))"

text \<open>
  \<^verbatim>\<open>kronecker_pow\<close> is not part of this module and is a parameter. The nodes outside the
  largest component are removed; \<^verbatim>\<open>G.nodes - largest_connected_component\<close> is a set, and
  the graph left does not depend on the order in which its nodes are removed.
\<close>

definition kronecker_pruned ::
  "('s \<Rightarrow> 'k \<Rightarrow> ndarray) \<Rightarrow> (nat \<Rightarrow> real) \<Rightarrow> 's \<Rightarrow> 'k \<Rightarrow> error + nx_graph" where
  "kronecker_pruned kronecker_pow rnd seed k =
     (let G_array = kronecker_pow seed k;
          (G, c) = kronecker_sample G_array rnd
      in case max_by_len (connected_components G) of
           Inl e \<Rightarrow> Inl e
         | Inr largest_connected_component \<Rightarrow>
             Inr (remove_nodes_from
                    [n \<leftarrow> nodes_of G. n \<notin> set largest_connected_component] G))"

definition kronecker_graph ::
  "('s \<Rightarrow> 'k \<Rightarrow> ndarray) \<Rightarrow> (nat \<Rightarrow> real) \<Rightarrow> 's \<Rightarrow> 'k \<Rightarrow> error + nlogo" where
  "kronecker_graph kronecker_pow rnd seed k =
     (case kronecker_pruned kronecker_pow rnd seed k of
        Inl e \<Rightarrow> Inl e
      | Inr G \<Rightarrow> Inr (nlogo_safe_nodes_edges G))"

definition kronecker_graph_bidirected ::
  "('s \<Rightarrow> 'k \<Rightarrow> ndarray) \<Rightarrow> (nat \<Rightarrow> real) \<Rightarrow> 's \<Rightarrow> 'k \<Rightarrow> error + nlogo" where
  "kronecker_graph_bidirected kronecker_pow rnd seed k =
     (case kronecker_pruned kronecker_pow rnd seed k of
        Inl e \<Rightarrow> Inl e
      | Inr G \<Rightarrow> Inr (nlogo_safe_nodes_edges (bidirected_graph G)))"


section \<open>Facts about the graph operations\<close>

lemma nodes_of_add_node: "set (nodes_of (add_node n G)) = insert n (set (nodes_of G))"
  by (auto simp: add_node_def nodes_of_def)

lemma distinct_add_node: "distinct (nodes_of G) \<Longrightarrow> distinct (nodes_of (add_node n G))"
  by (auto simp: add_node_def nodes_of_def)

lemma adj_of_add_node: "adj_of (add_node n G) u = adj_of G u"
proof (cases "n \<in> set (nodes_of G)")
  case True
  then show ?thesis by (simp add: add_node_def)
next
  case False
  then have "map_of (adj G) n = None"
    by (simp add: nodes_of_def map_of_eq_None_iff)
  then show ?thesis using False
    by (auto simp: add_node_def adj_of_def split: option.splits if_splits)
qed

lemma directed_add_node: "directed (add_node n G) = directed G"
  by (simp add: add_node_def)

lemma nodes_of_set_adj: "nodes_of (set_adj u v a G) = nodes_of G"
  by (simp add: set_adj_def nodes_of_def map_fst_map_entry)

lemma adj_of_set_adj:
  "adj_of (set_adj u v a G) w =
     (if w = u \<and> u \<in> set (nodes_of G) then AList.update v a (adj_of G u) else adj_of G w)"
proof (cases "map_of (adj G) u")
  case None
  then have "u \<notin> set (nodes_of G)" by (simp add: nodes_of_def map_of_eq_None_iff)
  with None show ?thesis
    by (simp add: set_adj_def adj_of_def map_of_map_entry)
next
  case (Some nb)
  then have "u \<in> set (nodes_of G)"
    using map_of_eq_None_iff [of "adj G" u] by (simp add: nodes_of_def)
  with Some show ?thesis
    by (simp add: set_adj_def adj_of_def map_of_map_entry)
qed

lemma nodes_of_edge_data: "nodes_of (snd (edge_data u v G)) = nodes_of G"
  by (simp add: edge_data_def nodes_of_def split: option.splits)

lemma adj_of_edge_data: "adj_of (snd (edge_data u v G)) w = adj_of G w"
  by (simp add: edge_data_def adj_of_def split: option.splits)

lemma nodes_of_add_edge: "set (nodes_of (add_edge u v G)) = insert u (insert v (set (nodes_of G)))"
  by (auto simp: add_edge_def Let_def case_prod_beta nodes_of_set_adj nodes_of_add_node
      nodes_of_edge_data)

lemma distinct_add_edge: "distinct (nodes_of G) \<Longrightarrow> distinct (nodes_of (add_edge u v G))"
  by (simp add: add_edge_def Let_def case_prod_beta nodes_of_set_adj distinct_add_node
      nodes_of_edge_data)

lemma directed_add_edge: "directed (add_edge u v G) = directed G"
  by (simp add: add_edge_def Let_def case_prod_beta set_adj_def edge_data_def directed_add_node
      split: option.splits)

lemma neighbors_add_edge_directed:
  "directed G \<Longrightarrow> set (neighbors (add_edge u v G) w) =
     set (neighbors G w) \<union> (if w = u then {v} else {})"
  by (simp add: add_edge_def Let_def case_prod_beta neighbors_def adj_of_set_adj
      nodes_of_add_node nodes_of_edge_data adj_of_edge_data adj_of_add_node AList.dom_update)

lemma neighbors_add_edge_undirected:
  "\<not> directed G \<Longrightarrow> set (neighbors (add_edge u v G) w) =
     set (neighbors G w) \<union> (if w = u then {v} else {}) \<union> (if w = v then {u} else {})"
  by (auto simp: add_edge_def Let_def case_prod_beta neighbors_def adj_of_set_adj
      nodes_of_add_node nodes_of_set_adj nodes_of_edge_data adj_of_edge_data adj_of_add_node
      AList.dom_update)


definition adj_rel :: "nx_graph \<Rightarrow> (node \<times> node) set" where
  "adj_rel G = {(u, v). v \<in> set (neighbors G u)}"

definition entries :: "(node \<times> (node \<times> addr) list) list \<Rightarrow> (node \<times> node) set" where
  "entries al = {(n, v). \<exists>nb. (n, nb) \<in> set al \<and> v \<in> fst ` set nb}"

lemma entries_Nil: "entries [] = {}"
  by (simp add: entries_def)

lemma entries_Cons: "entries ((n, nb) # al) = {(n, v) | v. v \<in> fst ` set nb} \<union> entries al"
  by (auto simp: entries_def)

lemma entries_key: "(n, v) \<in> entries al \<Longrightarrow> n \<in> fst ` set al"
  by (force simp: entries_def)

lemma entries_adj_rel: "distinct (nodes_of G) \<Longrightarrow> entries (adj G) = adj_rel G"
proof -
  assume d: "distinct (nodes_of G)"
  have "\<And>n nb. (n, nb) \<in> set (adj G) \<longleftrightarrow> map_of (adj G) n = Some nb"
    using d by (simp add: nodes_of_def)
  then show ?thesis
    by (fastforce simp: entries_def adj_rel_def neighbors_def adj_of_def split: option.splits)
qed

lemma set_edges_directed: "set (edges_directed al) = entries al"
  by (induction al) (auto simp: edges_directed_def entries_def)

lemma edges_undirected_subset: "set (edges_undirected al seen) \<subseteq> entries al"
  by (induction al seen rule: edges_undirected.induct) (auto simp: entries_Cons entries_Nil)

lemma edges_undirected_covers:
  assumes "distinct (map fst al)"
    and "\<And>n v. (n, v) \<in> entries al \<Longrightarrow> v \<notin> set seen \<Longrightarrow> (v, n) \<in> entries al"
    and "set seen \<inter> fst ` set al = {}"
    and "(n, v) \<in> entries al" and "v \<notin> set seen"
  shows "(n, v) \<in> set (edges_undirected al seen) \<or> (v, n) \<in> set (edges_undirected al seen)"
  using assms
proof (induction al seen arbitrary: n v rule: edges_undirected.induct)
  case (1 seen)
  then show ?case by (simp add: entries_Nil)
next
  case (2 m nb rest seen)
  show ?case
  proof (cases "n = m")
    case True
    from "2.prems"(1) have "m \<notin> fst ` set rest" by auto
    with "2.prems"(4) True have "v \<in> fst ` set nb"
      by (auto simp: entries_Cons dest: entries_key)
    with True "2.prems"(5) show ?thesis by auto
  next
    case False
    with "2.prems"(4) have nv: "(n, v) \<in> entries rest" by (auto simp: entries_Cons)
    show ?thesis
    proof (cases "v = m")
      case True
      from "2.prems"(2) [OF "2.prems"(4) "2.prems"(5)] have "(m, n) \<in> entries ((m, nb) # rest)"
        using True by simp
      moreover from "2.prems"(1) have "m \<notin> fst ` set rest" by auto
      ultimately have "n \<in> fst ` set nb" by (auto simp: entries_Cons dest: entries_key)
      moreover have "n \<notin> set seen"
        using entries_key [OF nv] "2.prems"(3) by auto
      ultimately show ?thesis using True by auto
    next
      case vm: False
      have d: "distinct (map fst rest)" using "2.prems"(1) by simp
      have m: "m \<notin> fst ` set rest" using "2.prems"(1) by auto
      have sym: "\<And>n' v'. (n', v') \<in> entries rest \<Longrightarrow> v' \<notin> set (m # seen) \<Longrightarrow> (v', n') \<in> entries rest"
      proof -
        fix n' v' assume a: "(n', v') \<in> entries rest" "v' \<notin> set (m # seen)"
        then have "(v', n') \<in> entries ((m, nb) # rest)"
          using "2.prems"(2) [of n' v'] by (auto simp: entries_Cons)
        with a show "(v', n') \<in> entries rest" by (auto simp: entries_Cons)
      qed
      have dis: "set (m # seen) \<inter> fst ` set rest = {}"
        using "2.prems"(3) m by auto
      have "v \<notin> set (m # seen)" using vm "2.prems"(5) by simp
      from "2.IH" [OF d sym dis nv this] show ?thesis by auto
    qed
  qed
qed

lemma set_edges_undirected:
  assumes "distinct (map fst al)" and "sym (entries al)"
  shows "set (edges_undirected al []) \<union> (set (edges_undirected al []))\<inverse> = entries al"
proof
  show "set (edges_undirected al []) \<union> (set (edges_undirected al []))\<inverse> \<subseteq> entries al"
    using edges_undirected_subset [of al "[]"] assms(2) by (auto dest: symD)
next
  show "entries al \<subseteq> set (edges_undirected al []) \<union> (set (edges_undirected al []))\<inverse>"
  proof
    fix e assume e: "e \<in> entries al"
    obtain n v where nv: "e = (n, v)" by (cases e)
    have "(n, v) \<in> set (edges_undirected al []) \<or> (v, n) \<in> set (edges_undirected al [])"
      by (rule edges_undirected_covers [OF assms(1)]) (use e nv assms(2) in \<open>auto dest: symD\<close>)
    with nv show "e \<in> set (edges_undirected al []) \<union> (set (edges_undirected al []))\<inverse>" by auto
  qed
qed

lemma edges_of_directed: "directed G \<Longrightarrow> distinct (nodes_of G) \<Longrightarrow> set (edges_of G) = adj_rel G"
  by (simp add: edges_of_def set_edges_directed entries_adj_rel)

lemma edges_of_undirected:
  "\<not> directed G \<Longrightarrow> distinct (nodes_of G) \<Longrightarrow> sym (adj_rel G) \<Longrightarrow>
     set (edges_of G) \<union> (set (edges_of G))\<inverse> = adj_rel G"
  using set_edges_undirected [of "adj G"] by (simp add: edges_of_def entries_adj_rel nodes_of_def)

lemma adj_rel_add_edge_directed:
  "directed G \<Longrightarrow> adj_rel (add_edge u v G) = insert (u, v) (adj_rel G)"
  by (auto simp: adj_rel_def neighbors_add_edge_directed split: if_splits)

lemma adj_rel_add_edge_undirected:
  "\<not> directed G \<Longrightarrow> adj_rel (add_edge u v G) = insert (u, v) (insert (v, u) (adj_rel G))"
  by (auto simp: adj_rel_def neighbors_add_edge_undirected split: if_splits)

lemma bidirected_fold:
  "directed B \<Longrightarrow> distinct (nodes_of B) \<Longrightarrow>
   directed (fold (\<lambda>edge B. add_edge (snd edge) (fst edge) (add_edge (fst edge) (snd edge) B)) es B)
   \<and> distinct (nodes_of (fold (\<lambda>edge B. add_edge (snd edge) (fst edge) (add_edge (fst edge) (snd edge) B)) es B))
   \<and> adj_rel (fold (\<lambda>edge B. add_edge (snd edge) (fst edge) (add_edge (fst edge) (snd edge) B)) es B)
       = adj_rel B \<union> set es \<union> (set es)\<inverse>"
proof (induction es arbitrary: B)
  case Nil
  then show ?case by simp
next
  case (Cons e es)
  let ?B = "add_edge (snd e) (fst e) (add_edge (fst e) (snd e) B)"
  have 1: "directed ?B" using Cons.prems by (simp add: directed_add_edge)
  have 2: "distinct (nodes_of ?B)" using Cons.prems by (simp add: distinct_add_edge)
  have 3: "adj_rel ?B = insert (snd e, fst e) (insert (fst e, snd e) (adj_rel B))"
    using Cons.prems by (simp add: adj_rel_add_edge_directed directed_add_edge)
  from Cons.IH [OF 1 2] 3 show ?case by (cases e) auto
qed

lemma adj_rel_DiGraph: "adj_rel DiGraph = {}"
  by (simp add: adj_rel_def neighbors_def adj_of_def DiGraph_def)

lemma bidirected_graph_edges:
  "set (edges_of (bidirected_graph G)) = set (edges_of G) \<union> (set (edges_of G))\<inverse>"
proof -
  have d: "directed DiGraph" "distinct (nodes_of DiGraph)"
    by (simp_all add: DiGraph_def nodes_of_def)
  from bidirected_fold [OF d, of "edges_of G"] show ?thesis
    by (simp add: bidirected_graph_def edges_of_directed adj_rel_DiGraph)
qed

section \<open>Bidirection\<close>

text \<open>
  Claim C4. For every graph \<open>G\<close>, the edge set of \<open>bidirected_graph G\<close> contains the ordered
  pair \<open>(u, v)\<close> exactly when it contains \<open>(v, u)\<close>, and it contains \<open>(u, v)\<close> exactly when the
  unordered pair is an edge of \<open>G\<close>, that is when \<^verbatim>\<open>G.edges\<close> reports \<open>(u, v)\<close> or \<open>(v, u)\<close>;
  so no pair is there whose unordered pair is not an edge of \<open>G\<close>.
\<close>

theorem bidirected_graph_both_orders:
  "((u, v) \<in> set (edges_of (bidirected_graph G))
      \<longleftrightarrow> (v, u) \<in> set (edges_of (bidirected_graph G)))
   \<and> ((u, v) \<in> set (edges_of (bidirected_graph G))
      \<longleftrightarrow> (u, v) \<in> set (edges_of G) \<or> (v, u) \<in> set (edges_of G))"
  by (auto simp: bidirected_graph_edges)

theorem bidirected_graph_both_orders_witness:
  "(2, 3) \<in> set (edges_of (bidirected_graph (add_edge 2 3 Graph)))
   \<and> (3, 2) \<in> set (edges_of (bidirected_graph (add_edge 2 3 Graph)))
   \<and> (2, 4) \<notin> set (edges_of (bidirected_graph (add_edge 2 3 Graph)))"
proof -
  have e: "edges_of (add_edge 2 3 Graph) = [(2, 3)]"
    by code_simp
  show ?thesis
    using bidirected_graph_both_orders [of 2 3 "add_edge 2 3 Graph"]
      bidirected_graph_both_orders [of 3 2 "add_edge 2 3 Graph"]
      bidirected_graph_both_orders [of 2 4 "add_edge 2 3 Graph"]
    by (auto simp: e)
qed


end
